theory Spec2Isabelle
  imports Complex_Main
begin

section \<open>Python values and built-ins used by \<^verbatim>\<open>app/parse.py\<close>\<close>

text \<open>
  Strings are lists of 8-bit characters, read as the code points 0..255. Exceptions are
  values: every function that can raise returns \<open>exn + 'a\<close>, with \<open>Inl\<close> the exception.
\<close>

datatype exn =
    NoSuchElementException
  | ValueError
  | IndexError
  | OtherError string

text \<open>
  A Python float is modelled by the exact value of the numeral it was converted from
  (\<open>Finite q\<close>), or one of the three special values. CPython rounds \<open>q\<close> to the nearest
  binary64 number; that rounding is not part of the model.
\<close>

datatype pyfloat = Finite rat | PosInf | NegInf | NaN

subsection \<open>Characters\<close>

text \<open>
  The characters that \<^verbatim>\<open>int\<close> and \<^verbatim>\<open>float\<close> drop around a numeral: tab, line feed,
  vertical tab, form feed, carriage return, space, and the two other white-space
  characters below 256, next line (133) and no-break space (160). The separators 28 to 31
  are white space for \<^verbatim>\<open>str.isspace\<close> but are not dropped by the conversions.
\<close>

definition is_space :: "char \<Rightarrow> bool" where
  "is_space c = ((of_char c :: nat) \<in> {9, 10, 11, 12, 13, 32, 133, 160})"

definition is_digit :: "char \<Rightarrow> bool" where
  "is_digit c = (48 \<le> (of_char c :: nat) \<and> (of_char c :: nat) \<le> 57)"

definition digit_val :: "char \<Rightarrow> nat" where
  "digit_val c = of_char c - 48"

definition digit_char :: "nat \<Rightarrow> char" where
  "digit_char n = char_of (48 + n)"

definition ascii_lower :: "char \<Rightarrow> char" where
  "ascii_lower c =
     (if 65 \<le> (of_char c :: nat) \<and> (of_char c :: nat) \<le> 90
      then char_of ((of_char c :: nat) + 32) else c)"

subsection \<open>\<^verbatim>\<open>str.replace\<close>, \<^verbatim>\<open>str.split\<close>, indexing, \<^verbatim>\<open>str.strip\<close>\<close>

text \<open>
  \<^verbatim>\<open>s.replace(old, new)\<close>: every non-overlapping occurrence of \<open>old\<close>, scanning from the
  left; with an empty \<open>old\<close>, \<open>new\<close> is put before every character and at the end.
\<close>

function replace :: "string \<Rightarrow> string \<Rightarrow> string \<Rightarrow> string" where
  "replace old new [] = (if old = [] then new else [])"
| "replace old new (c # cs) =
     (if old = [] then new @ c # replace old new cs
      else if take (length old) (c # cs) = old
           then new @ replace old new (drop (length old) (c # cs))
           else c # replace old new cs)"
  by pat_completeness auto
termination
  by (relation "measure (\<lambda>(old, new, s). length s)") auto

text \<open>
  \<^verbatim>\<open>s.split(sep)\<close> with an explicit separator: an empty separator raises \<^verbatim>\<open>ValueError\<close>;
  otherwise the text is cut at every non-overlapping occurrence of \<open>sep\<close>, scanning from
  the left, and the result has at least one element. \<open>cur\<close> is the piece being read.
\<close>

function split_from :: "string \<Rightarrow> string \<Rightarrow> string \<Rightarrow> string list" where
  "split_from sep cur [] = [cur]"
| "split_from sep cur (c # cs) =
     (if sep \<noteq> [] \<and> take (length sep) (c # cs) = sep
      then cur # split_from sep [] (drop (length sep) (c # cs))
      else split_from sep (cur @ [c]) cs)"
  by pat_completeness auto
termination
  by (relation "measure (\<lambda>(sep, cur, s). length s)") auto

definition split :: "string \<Rightarrow> string \<Rightarrow> exn + string list" where
  "split sep s = (if sep = [] then Inl ValueError else Inr (split_from sep [] s))"

text \<open>
  \<^verbatim>\<open>xs[i]\<close>: an index from 0 up to the length reads from the front, an index from -1
  down to minus the length reads from the back, any other raises \<^verbatim>\<open>IndexError\<close>.
\<close>

definition index :: "'a list \<Rightarrow> int \<Rightarrow> exn + 'a" where
  "index xs i =
     (if 0 \<le> i \<and> i < int (length xs) then Inr (xs ! nat i)
      else if i < 0 \<and> - i \<le> int (length xs) then Inr (xs ! nat (int (length xs) + i))
      else Inl IndexError)"

definition strip :: "string \<Rightarrow> string" where
  "strip s = rev (dropWhile is_space (rev (dropWhile is_space s)))"

subsection \<open>\<^verbatim>\<open>int(str)\<close>, \<^verbatim>\<open>float(str)\<close>, \<^verbatim>\<open>str(int)\<close>\<close>

text \<open>
  Both conversions accept single underscores between two digits and nowhere else.
  \<open>strip_underscores prev s\<close> removes them, or fails; \<open>prev\<close> is the character before \<open>s\<close>.
\<close>

fun strip_underscores :: "char option \<Rightarrow> string \<Rightarrow> string option" where
  "strip_underscores prev [] = Some []"
| "strip_underscores prev (c # cs) =
     (if c = CHR ''_'' then
        (if (case prev of None \<Rightarrow> False | Some p \<Rightarrow> is_digit p)
            \<and> (case cs of [] \<Rightarrow> False | d # _ \<Rightarrow> is_digit d)
         then strip_underscores (Some c) cs else None)
      else map_option (Cons c) (strip_underscores (Some c) cs))"

text \<open>The value of a string of decimal digits, most significant first.\<close>

definition digits_val :: "string \<Rightarrow> nat" where
  "digits_val ds = foldl (\<lambda>acc c. 10 * acc + digit_val c) 0 ds"

text \<open>An optional sign: whether it is \<open>-\<close>, and the text after it.\<close>

fun split_sign :: "string \<Rightarrow> bool \<times> string" where
  "split_sign [] = (False, [])"
| "split_sign (c # cs) =
     (if c = CHR ''-'' then (True, cs)
      else if c = CHR ''+'' then (False, cs)
      else (False, c # cs))"

text \<open>
  \<^verbatim>\<open>int(s)\<close> in base 10: surrounding whitespace is dropped, then an optional sign and a
  non-empty run of digits (with underscores as above) must make up the whole text.
  A numeral of more digits than the interpreter's limit on conversions, 4300 unless
  configured otherwise (the script does not configure it), raises \<^verbatim>\<open>ValueError\<close>;
  leading zeros count, underscores do not.
\<close>

definition int_max_str_digits :: nat where
  "int_max_str_digits = 4300"

definition py_int :: "string \<Rightarrow> exn + int" where
  "py_int s =
     (case split_sign (strip s) of (neg, body) \<Rightarrow>
        (case strip_underscores None body of
           None \<Rightarrow> Inl ValueError
         | Some ds \<Rightarrow>
             if ds \<noteq> [] \<and> list_all is_digit ds \<and> length ds \<le> int_max_str_digits
             then Inr (if neg then - int (digits_val ds) else int (digits_val ds))
             else Inl ValueError))"

text \<open>
  The exponent part of a float numeral: \<open>e\<close> or \<open>E\<close>, an optional sign, a non-empty run of
  digits, and nothing after it. An empty text is the exponent 0.
\<close>

definition parse_exponent :: "string \<Rightarrow> int option" where
  "parse_exponent s =
     (case s of
        [] \<Rightarrow> Some 0
      | c # cs \<Rightarrow>
          if c = CHR ''e'' \<or> c = CHR ''E'' then
            (case split_sign cs of (neg, ds) \<Rightarrow>
               if ds \<noteq> [] \<and> list_all is_digit ds
               then Some (if neg then - int (digits_val ds) else int (digits_val ds))
               else None)
          else None)"

definition pow10 :: "int \<Rightarrow> rat" where
  "pow10 e = (if 0 \<le> e then 10 ^ nat e else 1 / 10 ^ nat (- e))"

text \<open>
  \<^verbatim>\<open>float(s)\<close>: surrounding whitespace is dropped and underscores are removed; then an
  optional sign is followed by \<^verbatim>\<open>inf\<close>, \<^verbatim>\<open>infinity\<close> or \<^verbatim>\<open>nan\<close> in any letter case, or by
  digits with an optional point and fraction (at least one digit in all) and an optional
  exponent. Anything else, a thousands separator included, raises \<^verbatim>\<open>ValueError\<close>.
\<close>

definition py_float :: "string \<Rightarrow> exn + pyfloat" where
  "py_float s =
     (case strip_underscores None (strip s) of
        None \<Rightarrow> Inl ValueError
      | Some t \<Rightarrow>
          (case split_sign t of (neg, body) \<Rightarrow>
             if map ascii_lower body = ''inf'' \<or> map ascii_lower body = ''infinity''
             then Inr (if neg then NegInf else PosInf)
             else if map ascii_lower body = ''nan'' then Inr NaN
             else
               (let ip = takeWhile is_digit body;
                    r1 = dropWhile is_digit body;
                    fp = (case r1 of [] \<Rightarrow> [] | c # cs \<Rightarrow>
                            if c = CHR ''.'' then takeWhile is_digit cs else []);
                    r2 = (case r1 of [] \<Rightarrow> [] | c # cs \<Rightarrow>
                            if c = CHR ''.'' then dropWhile is_digit cs else r1)
                in if ip = [] \<and> fp = [] then Inl ValueError
                   else
                     (case parse_exponent r2 of
                        None \<Rightarrow> Inl ValueError
                      | Some e \<Rightarrow>
                          (let m = of_nat (digits_val (ip @ fp)) * pow10 (e - int (length fp))
                           in Inr (Finite (if neg then - m else m)))))))"

text \<open>
  The decimal numeral of an integer, as \<^verbatim>\<open>str(n)\<close> and \<^verbatim>\<open>f"{n}"\<close> write it: digits
  without leading zeros, \<open>-\<close> first if negative.
\<close>

fun nat_digits :: "nat \<Rightarrow> string" where
  "nat_digits n = (if n < 10 then [digit_char n] else nat_digits (n div 10) @ [digit_char (n mod 10)])"

definition str_int :: "int \<Rightarrow> string" where
  "str_int n = (if n < 0 then CHR ''-'' # nat_digits (nat (- n)) else nat_digits (nat n))"

declare nat_digits.simps [simp del]

section \<open>The rendered page\<close>

text \<open>
  A rendered element, as the browser reports it: tag, class list, attributes, visible
  text, and child elements in document order.
\<close>

datatype element =
  Element (el_tag: string) (el_classes: "string list") (el_attrs: "(string \<times> string) list")
          (el_text: string) (el_children: "element list")

text \<open>The locators of \<^verbatim>\<open>selenium.webdriver.common.by.By\<close> that the script uses (\<open>by\<close> is a keyword here).\<close>

datatype locator = CLASS_NAME string | LINK_TEXT string

fun matches :: "locator \<Rightarrow> element \<Rightarrow> bool" where
  "matches (CLASS_NAME c) e = (c \<in> set (el_classes e))"
| "matches (LINK_TEXT t) e = (el_tag e = ''a'' \<and> el_text e = t)"

text \<open>All elements below an element, in document order.\<close>

fun descendants :: "element \<Rightarrow> element list" where
  "descendants (Element tg cls ats txt chs) = concat (map (\<lambda>c. c # descendants c) chs)"

text \<open>
  \<^verbatim>\<open>WebElement.find_elements\<close> searches below the element; \<^verbatim>\<open>find_element\<close> returns the
  first match and raises \<^verbatim>\<open>NoSuchElementException\<close> when there is none.
\<close>

definition find_elements :: "element \<Rightarrow> locator \<Rightarrow> element list" where
  "find_elements e b = filter (matches b) (descendants e)"

definition find_element :: "element \<Rightarrow> locator \<Rightarrow> exn + element" where
  "find_element e b =
     (case find_elements e b of [] \<Rightarrow> Inl NoSuchElementException | x # _ \<Rightarrow> Inr x)"

definition get_attribute :: "element \<Rightarrow> string \<Rightarrow> string option" where
  "get_attribute e name = map_of (el_attrs e) name"

section \<open>The card parser\<close>

text \<open>
  The dataclass \<^verbatim>\<open>Product\<close>. The annotation \<^verbatim>\<open>title: str\<close> is not enforced:
  \<^verbatim>\<open>get_attribute\<close> returns \<^verbatim>\<open>None\<close> for an absent attribute, and the record keeps it.
\<close>

record product =
  title :: "string option"
  description :: string
  price :: pyfloat
  rating :: nat
  num_of_reviews :: int

text \<open>The price step of \<^verbatim>\<open>get_product\<close>: \<^verbatim>\<open>float(text.replace("$", ""))\<close>.\<close>

definition parse_price :: "string \<Rightarrow> exn + pyfloat" where
  "parse_price text = py_float (replace ''$'' '''' text)"

text \<open>The review-count step of \<^verbatim>\<open>get_product\<close>: \<^verbatim>\<open>int(text.split(" ")[0])\<close>.\<close>

definition parse_num_of_reviews :: "string \<Rightarrow> exn + int" where
  "parse_num_of_reviews text =
     (case split '' '' text of
        Inl e \<Rightarrow> Inl e
      | Inr tokens \<Rightarrow>
          (case index tokens 0 of
             Inl e \<Rightarrow> Inl e
           | Inr token \<Rightarrow> py_int token))"

definition get_product :: "element \<Rightarrow> exn + product" where
  "get_product product_card =
     (case find_element product_card (CLASS_NAME ''title'') of
        Inl e \<Rightarrow> Inl e
      | Inr title_el \<Rightarrow>
     (case find_element product_card (CLASS_NAME ''description'') of
        Inl e \<Rightarrow> Inl e
      | Inr description_el \<Rightarrow>
     (case find_element product_card (CLASS_NAME ''price'') of
        Inl e \<Rightarrow> Inl e
      | Inr price_el \<Rightarrow>
     (case parse_price (el_text price_el) of
        Inl e \<Rightarrow> Inl e
      | Inr price_v \<Rightarrow>
     (case find_element product_card (CLASS_NAME ''ratings'') of
        Inl e \<Rightarrow> Inl e
      | Inr ratings_el \<Rightarrow>
     (case parse_num_of_reviews (el_text ratings_el) of
        Inl e \<Rightarrow> Inl e
      | Inr reviews_v \<Rightarrow>
          Inr \<lparr> title = get_attribute title_el ''title'',
                description = el_text description_el,
                price = price_v,
                rating = length (find_elements product_card (CLASS_NAME ''ws-icon-star'')),
                num_of_reviews = reviews_v \<rparr>))))))"

text \<open>A product card as the listing renders it, for examples: price text, ratings text, stars.\<close>

definition sample_card :: "string \<Rightarrow> string \<Rightarrow> nat \<Rightarrow> element" where
  "sample_card price_text ratings_text stars =
     Element ''div'' [''thumbnail''] [] []
       [Element ''h4'' [''price''] [] price_text [],
        Element ''a'' [''title''] [(''href'', ''/p/1''), (''title'', ''Asus VivoBook'')] ''Asus Vivo...'' [],
        Element ''p'' [''description''] [] ''15.6 inch laptop'' [],
        Element ''div'' [''ratings''] [] ratings_text
          (replicate stars (Element ''span'' [''ws-icon'', ''ws-icon-star''] [] [] []))]"

section \<open>The browser session\<close>

text \<open>
  The browser is outside the program. It is a parameter: a type \<open>'s\<close> of session states
  and what each WebDriver command does to a state. \<open>chrome\<close> starts a session with the
  given arguments, \<open>get\<close> loads a URL, \<open>page\<close> is the document a state shows,
  \<open>click\<close> is \<^verbatim>\<open>WebElement.click()\<close> and \<open>execute_script_click\<close> is
  \<^verbatim>\<open>execute_script("arguments[0].click();", e)\<close>. A command that raises leaves the
  state as it was. The page changes only through commands.
\<close>

record 's browser =
  chrome :: "string list \<Rightarrow> exn + 's"
  get :: "string \<Rightarrow> 's \<Rightarrow> exn + 's"
  page :: "'s \<Rightarrow> element"
  click :: "element \<Rightarrow> 's \<Rightarrow> exn + 's"
  execute_script_click :: "element \<Rightarrow> 's \<Rightarrow> exn + 's"

text \<open>\<^verbatim>\<open>urljoin(BASE_URL, "test-sites/e-commerce/more/")\<close>, evaluated.\<close>

definition BASE_URL :: string where
  "BASE_URL = ''https://webscraper.io/''"

definition HOME_URL :: string where
  "HOME_URL = BASE_URL @ ''test-sites/e-commerce/more/''"

definition init_driver :: "'s browser \<Rightarrow> exn + 's" where
  "init_driver d =
     chrome d [''--headless'', ''--disable-gpu'', ''--disable-dev-shm-usage'', ''--no-sandbox'']"

text \<open>\<^verbatim>\<open>driver.find_elements\<close> and \<^verbatim>\<open>driver.find_element\<close> search the whole document.\<close>

definition driver_find_elements :: "'s browser \<Rightarrow> 's \<Rightarrow> locator \<Rightarrow> element list" where
  "driver_find_elements d s b = filter (matches b) (page d s # descendants (page d s))"

definition driver_find_element :: "'s browser \<Rightarrow> 's \<Rightarrow> locator \<Rightarrow> exn + element" where
  "driver_find_element d s b =
     (case driver_find_elements d s b of [] \<Rightarrow> Inl NoSuchElementException | x # _ \<Rightarrow> Inr x)"

section \<open>The pagination loop\<close>

text \<open>
  The \<^verbatim>\<open>while\<close> loop of \<^verbatim>\<open>execute_more_pagination_script\<close>, from any iteration on. It
  may run forever: the result \<open>None\<close> is a loop that never returns. \<open>Some (Inr s, cl)\<close> is
  a normal return in state \<open>s\<close>, \<open>Some (Inl e, cl)\<close> an exception that leaves the function.
  \<open>clicks\<close> is not in the source: it records the states in which the click script was
  run, so that the number and the circumstances of the clicks can be stated.
  The \<^verbatim>\<open>try\<close> block covers both the lookup and the script, and
  \<^verbatim>\<open>except NoSuchElementException: break\<close> ends the loop for either.
\<close>

partial_function (option) pagination_loop ::
  "'s browser \<Rightarrow> int \<Rightarrow> 's \<Rightarrow> 's list \<Rightarrow> ((exn + 's) \<times> 's list) option" where
  "pagination_loop d max_products s clicks =
     (if int (length (driver_find_elements d s (CLASS_NAME ''thumbnail''))) < max_products then
        (case driver_find_element d s (CLASS_NAME ''ecomerce-items-scroll-more'') of
           Inl e \<Rightarrow>
             if e = NoSuchElementException then Some (Inr s, clicks) else Some (Inl e, clicks)
         | Inr button_more \<Rightarrow>
             (case execute_script_click d button_more s of
                Inl e \<Rightarrow>
                  if e = NoSuchElementException then Some (Inr s, clicks @ [s])
                  else Some (Inl e, clicks @ [s])
              | Inr s' \<Rightarrow> pagination_loop d max_products s' (clicks @ [s])))
      else Some (Inr s, clicks))"

definition execute_more_pagination_script ::
  "'s browser \<Rightarrow> int \<Rightarrow> 's \<Rightarrow> ((exn + 's) \<times> 's list) option" where
  "execute_more_pagination_script d max_products s = pagination_loop d max_products s []"

section \<open>The page harvester\<close>

text \<open>A list comprehension over a function that can raise: the first exception ends it.\<close>

fun map_result :: "('a \<Rightarrow> exn + 'b) \<Rightarrow> 'a list \<Rightarrow> exn + 'b list" where
  "map_result f [] = Inr []"
| "map_result f (x # xs) =
     (case f x of
        Inl e \<Rightarrow> Inl e
      | Inr y \<Rightarrow> (case map_result f xs of Inl e \<Rightarrow> Inl e | Inr ys \<Rightarrow> Inr (y # ys)))"

text \<open>
  \<^verbatim>\<open>parse_product_card(driver, max_products)\<close>; the default of \<^verbatim>\<open>max_products\<close> is 3.
  The result carries the records, the session state afterwards, and the clicks made.
\<close>

definition parse_product_card ::
  "'s browser \<Rightarrow> int \<Rightarrow> 's \<Rightarrow> ((exn + product list \<times> 's) \<times> 's list) option" where
  "parse_product_card d max_products s =
     (case (if max_products \<noteq> 0 then execute_more_pagination_script d max_products s
            else Some (Inr s, [])) of
        None \<Rightarrow> None
      | Some (Inl e, clicks) \<Rightarrow> Some (Inl e, clicks)
      | Some (Inr s', clicks) \<Rightarrow>
          (let products = driver_find_elements d s' (CLASS_NAME ''thumbnail'')
           in case map_result get_product products of
                Inl e \<Rightarrow> Some (Inl e, clicks)
              | Inr records \<Rightarrow> Some (Inr (records, s'), clicks)))"

section \<open>The CSV writer\<close>

definition CR :: char where "CR = char_of (13 :: nat)"
definition LF :: char where "LF = char_of (10 :: nat)"

text \<open>
  \<^verbatim>\<open>csv.writer\<close> with the default dialect: delimiter \<open>,\<close>, quote character \<open>"\<close>, minimal
  quoting, doubled quotes, line terminator CR LF. A field is quoted when it contains the
  delimiter, the quote character or a character of the line terminator. A row that is a
  single empty field is written as two quote characters.
\<close>

definition needs_quote :: "string \<Rightarrow> bool" where
  "needs_quote f = list_ex (\<lambda>c. c = CHR '','' \<or> c = CHR 0x22 \<or> c = CR \<or> c = LF) f"

definition quote_field :: "string \<Rightarrow> string" where
  "quote_field f =
     (if needs_quote f
      then CHR 0x22 # concat (map (\<lambda>c. if c = CHR 0x22 then [c, c] else [c]) f) @ [CHR 0x22]
      else f)"

fun join_fields :: "string list \<Rightarrow> string" where
  "join_fields [] = []"
| "join_fields [f] = f"
| "join_fields (f # g # fs) = f @ CHR '','' # join_fields (g # fs)"

definition writerow :: "string list \<Rightarrow> string" where
  "writerow row =
     (if row = [[]] then [CHR 0x22, CHR 0x22] else join_fields (map quote_field row)) @ [CR, LF]"

text \<open>
  The values of a row dictionary, and their text in a CSV cell: a string as it is,
  \<^verbatim>\<open>None\<close> as the empty text, a number through \<^verbatim>\<open>str\<close>. The text of a float is
  Python's \<^verbatim>\<open>repr\<close>, which depends on the binary64 value; it is the parameter
  \<open>float_str\<close> throughout.
\<close>

datatype cell = CStr string | CNone | CFloat pyfloat | CInt int

fun cell_text :: "(pyfloat \<Rightarrow> string) \<Rightarrow> cell \<Rightarrow> string" where
  "cell_text float_str (CStr s) = s"
| "cell_text float_str CNone = []"
| "cell_text float_str (CFloat x) = float_str x"
| "cell_text float_str (CInt n) = str_int n"

text \<open>\<^verbatim>\<open>[field.name for field in fields(Product)]\<close> and \<^verbatim>\<open>asdict(obj)\<close>.\<close>

definition product_field_names :: "string list" where
  "product_field_names = [''title'', ''description'', ''price'', ''rating'', ''num_of_reviews'']"

definition asdict :: "product \<Rightarrow> (string \<times> cell) list" where
  "asdict obj =
     [(''title'', case title obj of None \<Rightarrow> CNone | Some t \<Rightarrow> CStr t),
      (''description'', CStr (description obj)),
      (''price'', CFloat (price obj)),
      (''rating'', CInt (int (rating obj))),
      (''num_of_reviews'', CInt (num_of_reviews obj))]"

text \<open>
  \<^verbatim>\<open>DictWriter._dict_to_list\<close>: a key that is no field name raises \<^verbatim>\<open>ValueError\<close>;
  the row is the values in the order of the field names, a missing key giving the empty
  text.
\<close>

definition dict_to_list :: "string list \<Rightarrow> (string \<times> cell) list \<Rightarrow> exn + cell list" where
  "dict_to_list fieldnames rowdict =
     (if list_ex (\<lambda>k. k \<notin> set fieldnames) (map fst rowdict) then Inl ValueError
      else Inr (map (\<lambda>k. case map_of rowdict k of None \<Rightarrow> CStr [] | Some v \<Rightarrow> v) fieldnames))"

text \<open>The loop \<^verbatim>\<open>for obj in products: writer.writerow(asdict(obj))\<close>; \<open>out\<close> is the text written so far.\<close>

fun writerows :: "(pyfloat \<Rightarrow> string) \<Rightarrow> string list \<Rightarrow> product list \<Rightarrow> string \<Rightarrow> exn + string" where
  "writerows float_str headers [] out = Inr out"
| "writerows float_str headers (obj # products) out =
     (case dict_to_list headers (asdict obj) of
        Inl e \<Rightarrow> Inl e
      | Inr row \<Rightarrow>
          writerows float_str headers products (out @ writerow (map (cell_text float_str) row)))"

text \<open>
  The files are a map from names to texts. \<^verbatim>\<open>open(filename, "w", newline="")\<close> replaces
  the file and writes the text as it is. Failures of the file system are not modelled.
\<close>

type_synonym files = "string \<rightharpoonup> string"

definition write_to_csv ::
  "(pyfloat \<Rightarrow> string) \<Rightarrow> product list \<Rightarrow> string \<Rightarrow> files \<Rightarrow> exn + files" where
  "write_to_csv float_str products filename fs =
     (let headers = product_field_names;
          out = writerow headers
      in case writerows float_str headers products out of
           Inl e \<Rightarrow> Inl e
         | Inr text \<Rightarrow> Inr (fs(filename \<mapsto> text)))"

subsection \<open>Reading a CSV text back\<close>








section \<open>The run\<close>

text \<open>
  A statement of \<^verbatim>\<open>get_all_products\<close> takes the session state and the files to the next
  ones, raises (\<open>Some (Inl e)\<close>), or never returns (\<open>None\<close>). Statements run in sequence;
  an exception or a loop that never returns ends the run there.
\<close>

type_synonym 's run = "(exn + 's \<times> files) option"

fun run_statements :: "('s \<times> files \<Rightarrow> 's run) list \<Rightarrow> 's \<times> files \<Rightarrow> 's run" where
  "run_statements [] st = Some (Inr st)"
| "run_statements (stmt # stmts) st =
     (case stmt st of
        None \<Rightarrow> None
      | Some (Inl e) \<Rightarrow> Some (Inl e)
      | Some (Inr st') \<Rightarrow> run_statements stmts st')"

text \<open>\<^verbatim>\<open>write_to_csv(parse_product_card(driver, max_products), filename)\<close>\<close>

definition harvest_to ::
  "(pyfloat \<Rightarrow> string) \<Rightarrow> 's browser \<Rightarrow> int \<Rightarrow> string \<Rightarrow> 's \<times> files \<Rightarrow> 's run" where
  "harvest_to float_str d max_products filename st =
     (case st of (s, fs) \<Rightarrow>
        (case parse_product_card d max_products s of
           None \<Rightarrow> None
         | Some (Inl e, clicks) \<Rightarrow> Some (Inl e)
         | Some (Inr (records, s'), clicks) \<Rightarrow>
             (case write_to_csv float_str records filename fs of
                Inl e \<Rightarrow> Some (Inl e)
              | Inr fs' \<Rightarrow> Some (Inr (s', fs')))))"

text \<open>\<^verbatim>\<open>driver.find_element(By.LINK_TEXT, text).click()\<close>\<close>

definition click_link :: "'s browser \<Rightarrow> string \<Rightarrow> 's \<times> files \<Rightarrow> 's run" where
  "click_link d text st =
     (case st of (s, fs) \<Rightarrow>
        (case driver_find_element d s (LINK_TEXT text) of
           Inl e \<Rightarrow> Some (Inl e)
         | Inr link \<Rightarrow>
             (case click d link s of
                Inl e \<Rightarrow> Some (Inl e)
              | Inr s' \<Rightarrow> Some (Inr (s', fs)))))"

definition get_all_products :: "(pyfloat \<Rightarrow> string) \<Rightarrow> 's browser \<Rightarrow> files \<Rightarrow> 's run" where
  "get_all_products float_str d fs =
     (case init_driver d of
        Inl e \<Rightarrow> Some (Inl e)
      | Inr driver \<Rightarrow>
          (case get d HOME_URL driver of
             Inl e \<Rightarrow> Some (Inl e)
           | Inr s \<Rightarrow>
               run_statements
                 [harvest_to float_str d 3 ''home.csv'',
                  click_link d ''Computers'',
                  harvest_to float_str d 3 ''computers.csv'',
                  click_link d ''Laptops'',
                  harvest_to float_str d 117 ''laptops.csv'',
                  click_link d ''Tablets'',
                  harvest_to float_str d 21 ''tablets.csv'',
                  click_link d ''Phones'',
                  harvest_to float_str d 3 ''phones.csv'',
                  click_link d ''Touch'',
                  harvest_to float_str d 9 ''touch.csv'']
                 (s, fs)))"

subsection \<open>The run as the specification words it\<close>

text \<open>
  The specification describes the run as a state machine over six categories, each a
  triple of a navigation action (none for the start page), a target count and an output
  file. This second definition follows those words and is written on the commands of
  the browser, not on the statements of \<open>get_all_products\<close>; it is compared with
  \<open>get_all_products\<close> below. Clicking the link with a given text: the first \<open>a\<close>
  element of the document with that text is looked up, its absence is a
  \<^verbatim>\<open>NoSuchElementException\<close>, and the browser's click is run on it. A category step:
  the navigation action, then the harvest with the target count, then the write of the
  records to the output file. A step that raises, or never returns, ends the run.
\<close>

definition spec_navigate :: "'s browser \<Rightarrow> string option \<Rightarrow> 's \<Rightarrow> exn + 's" where
  "spec_navigate d nav s =
     (case nav of
        None \<Rightarrow> Inr s
      | Some link_text \<Rightarrow>
          (case List.find (\<lambda>e. el_tag e = ''a'' \<and> el_text e = link_text)
                  (page d s # descendants (page d s)) of
             None \<Rightarrow> Inl NoSuchElementException
           | Some link \<Rightarrow> click d link s))"

definition spec_category_step ::
  "(pyfloat \<Rightarrow> string) \<Rightarrow> 's browser \<Rightarrow> string option \<times> int \<times> string \<Rightarrow> 's \<times> files \<Rightarrow> 's run" where
  "spec_category_step float_str d cat st =
     (case cat of (nav, target_count, filename) \<Rightarrow>
      case st of (s, fs) \<Rightarrow>
        (case spec_navigate d nav s of
           Inl e \<Rightarrow> Some (Inl e)
         | Inr s1 \<Rightarrow>
             (case parse_product_card d target_count s1 of
                None \<Rightarrow> None
              | Some (Inl e, clicks) \<Rightarrow> Some (Inl e)
              | Some (Inr (records, s2), clicks) \<Rightarrow>
                  (case write_to_csv float_str records filename fs of
                     Inl e \<Rightarrow> Some (Inl e)
                   | Inr fs' \<Rightarrow> Some (Inr (s2, fs'))))))"

fun spec_run_categories ::
  "(pyfloat \<Rightarrow> string) \<Rightarrow> 's browser \<Rightarrow> (string option \<times> int \<times> string) list \<Rightarrow> 's \<times> files \<Rightarrow> 's run" where
  "spec_run_categories float_str d [] st = Some (Inr st)"
| "spec_run_categories float_str d (cat # cats) st =
     (case spec_category_step float_str d cat st of
        None \<Rightarrow> None
      | Some (Inl e) \<Rightarrow> Some (Inl e)
      | Some (Inr st') \<Rightarrow> spec_run_categories float_str d cats st')"

section \<open>Example sessions\<close>

text \<open>
  A listing page: the links to the categories, \<open>n\<close> rendered cards, and the load-more
  control when \<open>has_more\<close> holds.
\<close>

definition category_links :: "element list" where
  "category_links =
     map (\<lambda>t. Element ''a'' [''category-link''] [] t [])
       [''Computers'', ''Laptops'', ''Tablets'', ''Phones'', ''Touch'']"

definition listing_page :: "nat \<Rightarrow> bool \<Rightarrow> element" where
  "listing_page n has_more =
     Element ''body'' [] [] []
       (category_links
        @ replicate n (sample_card ''$1299.99'' ''7 reviews'' 3)
        @ (if has_more
           then [Element ''a'' [''ecomerce-items-scroll-more''] [] ''More'' []]
           else []))"

text \<open>
  A session whose state is the number of rendered cards: every run of the click script
  renders \<open>step\<close> more cards, up to \<open>limit\<close> cards, and the control is there while cards are left.
\<close>

definition listing_browser :: "nat \<Rightarrow> nat \<Rightarrow> nat browser" where
  "listing_browser step limit =
     \<lparr> chrome = (\<lambda>args. Inr 0),
       get = (\<lambda>url s. Inr (min step limit)),
       page = (\<lambda>s. listing_page s (s < limit)),
       click = (\<lambda>e s. Inr (min step limit)),
       execute_script_click = (\<lambda>e s. Inr (min limit (s + step))) \<rparr>"

text \<open>A session that never renders a card and always shows the control.\<close>

definition stalled_browser :: "unit browser" where
  "stalled_browser =
     \<lparr> chrome = (\<lambda>args. Inr ()),
       get = (\<lambda>url s. Inr ()),
       page = (\<lambda>s. listing_page 0 True),
       click = (\<lambda>e s. Inr ()),
       execute_script_click = (\<lambda>e s. Inr ()) \<rparr>"

text \<open>
  A session that records the commands it receives: its state is the list of the URLs
  loaded, the texts of the elements clicked and a mark for every run of the click
  script, in order. It always shows five cards and no load-more control.
\<close>

definition recording_browser :: "string list browser" where
  "recording_browser =
     \<lparr> chrome = (\<lambda>args. Inr []),
       get = (\<lambda>url s. Inr (s @ [url])),
       page = (\<lambda>s. listing_page 5 False),
       click = (\<lambda>e s. Inr (s @ [el_text e])),
       execute_script_click = (\<lambda>e s. Inr (s @ [''arguments[0].click();''])) \<rparr>"

section \<open>Properties of the conversions\<close>

lemma dropWhile_id: "xs = [] \<or> \<not> P (hd xs) \<Longrightarrow> dropWhile P xs = xs"
  by (cases xs) auto

lemma strip_id:
  assumes "s = [] \<or> (\<not> is_space (hd s) \<and> \<not> is_space (last s))"
  shows "strip s = s"
proof -
  have a: "dropWhile is_space s = s"
    using assms by (intro dropWhile_id) auto
  have b: "dropWhile is_space (rev s) = rev s"
    using assms by (intro dropWhile_id) (auto simp: hd_rev)
  show ?thesis by (simp add: strip_def a b)
qed

lemma strip_underscores_none:
  "CHR ''_'' \<notin> set s \<Longrightarrow> strip_underscores prev s = Some s"
  by (induction s arbitrary: prev) auto

lemma digits_val_snoc: "digits_val (ds @ [c]) = 10 * digits_val ds + digit_val c"
  by (simp add: digits_val_def)


lemma digit_char_props: "n < 10 \<Longrightarrow> is_digit (digit_char n) \<and> digit_val (digit_char n) = n"
  by (simp add: is_digit_def digit_val_def digit_char_def)

lemma is_digit_not_special:
  "is_digit c \<Longrightarrow> \<not> is_space c \<and> c \<noteq> CHR ''_'' \<and> c \<noteq> CHR ''-'' \<and> c \<noteq> CHR ''+'' \<and> c \<noteq> CHR '' ''
     \<and> c \<noteq> CHR ''.'' \<and> c \<noteq> CHR ''$'' \<and> ascii_lower c = c"
  by (auto simp: is_digit_def is_space_def ascii_lower_def)

lemma replace_char_filter: "replace [c] [] s = filter (\<lambda>x. x \<noteq> c) s"
  by (induction s) auto

lemma split_from_no_sep:
  "c \<notin> set t \<Longrightarrow> split_from [c] cur (t @ c # s) = (cur @ t) # split_from [c] [] s"
  by (induction t arbitrary: cur) auto

lemma nat_digits_all: "list_all is_digit (nat_digits n) \<and> nat_digits n \<noteq> []"
proof (induction n rule: nat_digits.induct)
  case (1 n)
  show ?case
  proof (cases "n < 10")
    case True
    then show ?thesis by (simp add: nat_digits.simps [of n] digit_char_props)
  next
    case False
    with 1 show ?thesis by (simp add: nat_digits.simps [of n] digit_char_props)
  qed
qed

lemma digits_val_nat_digits: "digits_val (nat_digits n) = n"
proof (induction n rule: nat_digits.induct)
  case (1 n)
  show ?case
  proof (cases "n < 10")
    case True
    then show ?thesis by (simp add: nat_digits.simps [of n] digit_char_props digits_val_def)
  next
    case False
    with 1 show ?thesis by (simp add: nat_digits.simps [of n] digit_char_props digits_val_snoc)
  qed
qed

lemma digits_clean:
  assumes "list_all is_digit ds"
  shows "CHR ''_'' \<notin> set ds" "CHR '' '' \<notin> set ds" "CHR ''$'' \<notin> set ds"
  using assms is_digit_not_special by (auto simp: list_all_iff)

lemma nat_digits_length_le:
  "0 < k \<Longrightarrow> n < 10 ^ k \<Longrightarrow> length (nat_digits n) \<le> k"
proof (induction n arbitrary: k rule: nat_digits.induct)
  case (1 n)
  show ?case
  proof (cases "n < 10")
    case True
    with "1.prems" show ?thesis by (simp add: nat_digits.simps [of n])
  next
    case False
    with "1.prems" obtain j where k: "k = Suc j" "0 < j"
      by (cases k; cases "k - 1") auto
    from "1.prems" k have "n div 10 < 10 ^ j"
      by (simp add: less_mult_imp_div_less mult.commute)
    from "1.IH" [OF False k(2) this] False k show ?thesis
      by (simp add: nat_digits.simps [of n])
  qed
qed

lemma nat_digits_length_gt:
  "10 ^ k \<le> n \<Longrightarrow> k < length (nat_digits n)"
proof (induction n arbitrary: k rule: nat_digits.induct)
  case (1 n)
  show ?case
  proof (cases k)
    case 0
    then show ?thesis using nat_digits_all [of n] by (cases "nat_digits n") auto
  next
    case (Suc j)
    have "(10::nat) * 1 \<le> 10 * 10 ^ j" by (rule mult_le_mono2) simp
    moreover from "1.prems" Suc have "10 * 10 ^ j \<le> n" by simp
    ultimately have ge: "\<not> n < 10" by linarith
    from "1.prems" Suc have "10 ^ j \<le> n div 10"
      by (simp add: less_eq_div_iff_mult_less_eq mult.commute)
    from "1.IH" [OF ge this] ge Suc show ?thesis
      by (simp add: nat_digits.simps [of n])
  qed
qed

lemma nat_digits_pow10:
  "nat_digits (10 ^ k) = CHR ''1'' # replicate k (CHR ''0'')"
proof (induction k)
  case 0
  have "digit_char (Suc 0) = CHR ''1''" by code_simp
  then show ?case by (simp add: nat_digits.simps [of "Suc 0"])
next
  case (Suc k)
  have "\<not> (10::nat) ^ Suc k < 10" by simp
  then have "nat_digits (10 ^ Suc k) = nat_digits (10 ^ k) @ [digit_char 0]"
    by (subst nat_digits.simps) simp
  also have "digit_char 0 = CHR ''0''" by code_simp
  finally show ?case using Suc by (simp add: replicate_append_same)
qed

lemma py_int_digits:
  assumes "list_all is_digit ds" "ds \<noteq> []" "length ds \<le> int_max_str_digits"
  shows "py_int ds = Inr (int (digits_val ds))"
proof -
  have h: "\<not> is_space (hd ds)" "\<not> is_space (last ds)"
    using assms is_digit_not_special by (auto simp: list_all_iff)
  have s: "strip ds = ds" using h by (intro strip_id) simp
  have sg: "split_sign ds = (False, ds)"
    using assms is_digit_not_special by (cases ds) auto
  have u: "strip_underscores None ds = Some ds"
    using assms by (intro strip_underscores_none digits_clean)
  show ?thesis using assms by (simp add: py_int_def s sg u)
qed

lemma py_int_too_long:
  assumes "list_all is_digit ds" "int_max_str_digits < length ds"
  shows "py_int ds = Inl ValueError"
proof -
  have ne: "ds \<noteq> []" using assms(2) by auto
  have h: "\<not> is_space (hd ds)" "\<not> is_space (last ds)"
    using assms(1) ne is_digit_not_special by (auto simp: list_all_iff)
  have s: "strip ds = ds" using h by (intro strip_id) simp
  have sg: "split_sign ds = (False, ds)"
    using assms(1) ne is_digit_not_special by (cases ds) auto
  have u: "strip_underscores None ds = Some ds"
    using assms(1) by (intro strip_underscores_none digits_clean)
  show ?thesis using assms by (simp add: py_int_def s sg u)
qed

lemma py_int_neg_digits:
  assumes "list_all is_digit ds" "ds \<noteq> []" "length ds \<le> int_max_str_digits"
  shows "py_int (CHR ''-'' # ds) = Inr (- int (digits_val ds))"
proof -
  have h: "\<not> is_space (last ds)"
    using assms is_digit_not_special by (auto simp: list_all_iff)
  have s: "strip (CHR ''-'' # ds) = CHR ''-'' # ds"
    using h assms by (intro strip_id) (simp add: is_space_def)
  have u: "strip_underscores None ds = Some ds"
    using assms by (intro strip_underscores_none digits_clean)
  show ?thesis using assms by (simp add: py_int_def s u)
qed

lemma py_int_str_int:
  assumes "\<bar>n\<bar> < 10 ^ int_max_str_digits"
  shows "py_int (str_int n) = Inr n"
proof -
  have "nat \<bar>n\<bar> < 10 ^ int_max_str_digits"
    using assms by (simp add: nat_less_iff)
  moreover have "0 < int_max_str_digits"
    by (simp add: int_max_str_digits_def)
  ultimately have len: "length (nat_digits (nat \<bar>n\<bar>)) \<le> int_max_str_digits"
    by (intro nat_digits_length_le)
  show ?thesis
  proof (cases "n < 0")
    case True
    then have a: "nat \<bar>n\<bar> = nat (- n)" by simp
    show ?thesis
      using True len nat_digits_all [of "nat (- n)"]
      by (simp add: a str_int_def py_int_neg_digits digits_val_nat_digits)
  next
    case False
    then have a: "nat \<bar>n\<bar> = nat n" by simp
    show ?thesis
      using False len nat_digits_all [of "nat n"]
      by (simp add: a str_int_def py_int_digits digits_val_nat_digits)
  qed
qed

lemma str_int_no_space: "CHR '' '' \<notin> set (str_int n)"
  using nat_digits_all digits_clean(2) by (simp add: str_int_def)

lemma parse_num_of_reviews_first_token:
  "CHR '' '' \<notin> set t \<Longrightarrow> parse_num_of_reviews (t @ '' '' @ s) = py_int t"
  by (simp add: parse_num_of_reviews_def split_def split_from_no_sep index_def)

lemma str_int_pow10:
  "str_int (10 ^ k) = CHR ''1'' # replicate k (CHR ''0'')"
proof -
  show ?thesis
    using nat_digits_pow10 [of k] by (simp add: str_int_def nat_power_eq)
qed

lemma parse_num_of_reviews_pow10:
  assumes "int_max_str_digits \<le> k"
  shows "parse_num_of_reviews (str_int (10 ^ k) @ '' '' @ s) = Inl ValueError"
proof -
  have "py_int (str_int (10 ^ k)) = Inl ValueError"
  proof (rule py_int_too_long)
    show "list_all is_digit (str_int (10 ^ k))"
      unfolding str_int_pow10 by (simp add: is_digit_def list_all_iff)
    show "int_max_str_digits < length (str_int (10 ^ k))"
      unfolding str_int_pow10 using assms by simp
  qed
  then show ?thesis
    using parse_num_of_reviews_first_token [OF str_int_no_space, of "10 ^ k" s] by simp
qed





section \<open>The card parser: price and review count\<close>

lemma sample_card_elements:
  "find_element (sample_card p r k) (CLASS_NAME ''title'')
     = Inr (Element ''a'' [''title''] [(''href'', ''/p/1''), (''title'', ''Asus VivoBook'')] ''Asus Vivo...'' [])"
  "find_element (sample_card p r k) (CLASS_NAME ''description'')
     = Inr (Element ''p'' [''description''] [] ''15.6 inch laptop'' [])"
  "find_element (sample_card p r k) (CLASS_NAME ''price'') = Inr (Element ''h4'' [''price''] [] p [])"
  "find_element (sample_card p r k) (CLASS_NAME ''ratings'')
     = Inr (Element ''div'' [''ratings''] [] r
              (replicate k (Element ''span'' [''ws-icon'', ''ws-icon-star''] [] [] [])))"
  by (simp_all add: sample_card_def find_element_def find_elements_def)

lemma sample_card_stars:
  "length (find_elements (sample_card p r k) (CLASS_NAME ''ws-icon-star'')) = k"
  by (simp add: sample_card_def find_elements_def concat_map_singleton flip: replicate_append_same)

lemma parse_seven_reviews: "parse_num_of_reviews ''7 reviews'' = Inr 7"
  by (simp add: parse_num_of_reviews_def split_def index_def py_int_def strip_def
      is_space_def is_digit_def digits_val_def digit_val_def int_max_str_digits_def)




text \<open>
  C3, as stated, fails: the count \<open>10 ^ 4300\<close> is written with 4301 digits, one more than
  the conversion limit, and the review-count step raises \<^verbatim>\<open>ValueError\<close> on the text
  made of that numeral, a space and a suffix.
\<close>

theorem review_count_digit_limit_counterexample:
  "str_int (10 ^ 4300) = CHR ''1'' # replicate 4300 (CHR ''0'')
   \<and> parse_num_of_reviews (str_int (10 ^ 4300) @ '' '' @ ''reviews'') = Inl ValueError
   \<and> parse_num_of_reviews (str_int (10 ^ 4300) @ '' '' @ ''reviews'') \<noteq> Inr (10 ^ 4300)"
proof -
  have le: "int_max_str_digits \<le> 4300"
    by (simp add: int_max_str_digits_def)
  note a = str_int_pow10 [of 4300]
  note b = parse_num_of_reviews_pow10 [OF le, of "''reviews''"]
  have c: "parse_num_of_reviews (str_int (10 ^ 4300) @ '' '' @ ''reviews'') \<noteq> Inr (10 ^ 4300)"
    unfolding b by (rule sum.distinct)
  show ?thesis
    by (intro conjI) (rule a b c)+
qed

text \<open>
  C3, amended: for every non-negative integer \<open>n\<close> written with at most 4300 digits
  (\<open>n < 10 ^ 4300\<close>) and every non-empty suffix \<open>s\<close>, the review-count step of
  \<open>get_product\<close> applied to the text \<^verbatim>\<open>f"{n} {s}"\<close> returns \<open>n\<close>.
\<close>

theorem review_count_roundtrip_within_limit:
  assumes "0 \<le> n" and "n < 10 ^ 4300" and "s \<noteq> []"
  shows "parse_num_of_reviews (str_int n @ '' '' @ s) = Inr n"
proof -
  have e: "int_max_str_digits = 4300"
    by (simp add: int_max_str_digits_def)
  have "\<bar>n\<bar> = n" using assms(1) by simp
  then have "\<bar>n\<bar> < 10 ^ int_max_str_digits"
    unfolding e using assms(2) by (simp only:)
  then have "py_int (str_int n) = Inr n"
    by (rule py_int_str_int)
  then show ?thesis
    using parse_num_of_reviews_first_token [OF str_int_no_space, of n s] by simp
qed

theorem review_count_roundtrip_within_limit_witness:
  "(0::int) \<le> 7 \<and> (7::int) < 10 ^ 4300 \<and> ''reviews'' \<noteq> []
   \<and> parse_num_of_reviews (''7'' @ '' '' @ ''reviews'') = Inr 7"
proof -
  have s: "str_int 7 = ''7''"
    by code_simp
  have b: "(7::int) < 10 ^ 4300"
  proof -
    have "(7::int) < 10 ^ 1" by simp
    also have "(10::int) ^ 1 \<le> 10 ^ 4300" by (rule power_increasing) simp_all
    finally show ?thesis .
  qed
  have z: "(0::int) \<le> 7" and r: "''reviews'' \<noteq> []" by simp_all
  have c: "parse_num_of_reviews (''7'' @ '' '' @ ''reviews'') = Inr 7"
    using review_count_roundtrip_within_limit [OF z b r] unfolding s .
  show ?thesis
    by (intro conjI) (rule z b r c)+
qed

text \<open>
  C10: the price step removes every \<open>$\<close> of the price text, wherever it stands, before
  the conversion; the texts \<^verbatim>\<open>5$\<close>, \<^verbatim>\<open>$$5\<close> and \<^verbatim>\<open>1$2\<close> are converted to 5, 5 and 12,
  and \<open>get_product\<close> returns a record for a card with such a price.
\<close>

theorem parse_price_removes_every_dollar:
  "parse_price text = py_float (filter (\<lambda>c. c \<noteq> CHR ''$'') text)
   \<and> parse_price ''5$'' = Inr (Finite 5)
   \<and> parse_price ''$$5'' = Inr (Finite 5)
   \<and> parse_price ''1$2'' = Inr (Finite 12)
   \<and> get_product (sample_card ''1$2'' ''7 reviews'' 3) =
        Inr \<lparr> title = Some ''Asus VivoBook'', description = ''15.6 inch laptop'',
              price = Finite 12, rating = 3, num_of_reviews = 7 \<rparr>"
proof -
  have g: "parse_price t = py_float (filter (\<lambda>c. c \<noteq> CHR ''$'') t)" for t
    by (simp add: parse_price_def replace_char_filter)
  have f5: "py_float ''5'' = Inr (Finite 5)"
    by (simp add: py_float_def strip_def is_space_def is_digit_def parse_exponent_def
        ascii_lower_def digits_val_def digit_val_def pow10_def)
  have f12: "py_float ''12'' = Inr (Finite 12)"
    by (simp add: py_float_def strip_def is_space_def is_digit_def parse_exponent_def
        ascii_lower_def digits_val_def digit_val_def pow10_def)
  have a: "parse_price ''5$'' = Inr (Finite 5)" by (simp add: g f5)
  have b: "parse_price ''$$5'' = Inr (Finite 5)" by (simp add: g f5)
  have c: "parse_price ''1$2'' = Inr (Finite 12)" by (simp add: g f12)
  have e: "get_product (sample_card ''1$2'' ''7 reviews'' 3) =
        Inr \<lparr> title = Some ''Asus VivoBook'', description = ''15.6 inch laptop'',
              price = Finite 12, rating = 3, num_of_reviews = 7 \<rparr>"
    by (simp add: get_product_def sample_card_elements sample_card_stars c parse_seven_reviews
        get_attribute_def)
  show ?thesis using g a b c e by blast
qed

section \<open>The pagination loop and the harvester\<close>

lemma driver_find_element_cases:
  "driver_find_element d s b = Inl NoSuchElementException
   \<or> (\<exists>x. driver_find_element d s b = Inr x)"
  by (simp add: driver_find_element_def split: list.split)

lemma pagination_loop_reached:
  "\<not> int (length (driver_find_elements d s (CLASS_NAME ''thumbnail''))) < N
   \<Longrightarrow> pagination_loop d N s clicks = Some (Inr s, clicks)"
  by (subst pagination_loop.simps) simp

lemma pagination_loop_no_control:
  "driver_find_element d s (CLASS_NAME ''ecomerce-items-scroll-more'') = Inl NoSuchElementException
   \<Longrightarrow> pagination_loop d N s clicks = Some (Inr s, clicks)"
  by (subst pagination_loop.simps) simp

lemma pagination_loop_click:
  "int (length (driver_find_elements d s (CLASS_NAME ''thumbnail''))) < N
   \<Longrightarrow> driver_find_element d s (CLASS_NAME ''ecomerce-items-scroll-more'') = Inr b
   \<Longrightarrow> execute_script_click d b s = Inr s'
   \<Longrightarrow> pagination_loop d N s clicks = pagination_loop d N s' (clicks @ [s])"
  by (subst pagination_loop.simps) simp

lemma pagination_loop_clicks_below_aux:
  assumes "pagination_loop d N s clicks = Some y"
  shows "\<exists>new. snd y = clicks @ new
           \<and> (\<forall>x \<in> set new. int (length (driver_find_elements d x (CLASS_NAME ''thumbnail''))) < N)"
  using assms
proof (induction d N s clicks y rule: pagination_loop.raw_induct [rotated 1, consumes 1, case_names 1])
  case (1 loop d N s clicks y)
  note IH = 1(1) and body = 1(2)
  show ?case
  proof (cases "int (length (driver_find_elements d s (CLASS_NAME ''thumbnail''))) < N")
    case False
    with body show ?thesis by auto
  next
    case below: True
    show ?thesis
    proof (cases "driver_find_element d s (CLASS_NAME ''ecomerce-items-scroll-more'')")
      case (Inl e)
      with below body show ?thesis by (auto split: if_splits)
    next
      case (Inr b)
      show ?thesis
      proof (cases "execute_script_click d b s")
        case (Inl e)
        with below Inr body show ?thesis by (auto split: if_splits)
      next
        case click: (Inr s')
        with below Inr body have "loop d N s' (clicks @ [s]) = Some y"
          by simp
        from IH [OF this] obtain new where
          "snd y = (clicks @ [s]) @ new"
          "\<forall>x \<in> set new. int (length (driver_find_elements d x (CLASS_NAME ''thumbnail''))) < N"
          by blast
        with below show ?thesis by (intro exI [of _ "s # new"]) simp
      qed
    qed
  qed
qed

lemma pagination_loop_diverges:
  assumes inv: "\<And>s. I s \<Longrightarrow>
            int (length (driver_find_elements d s (CLASS_NAME ''thumbnail''))) < N
            \<and> (\<exists>b s'. driver_find_element d s (CLASS_NAME ''ecomerce-items-scroll-more'') = Inr b
                  \<and> execute_script_click d b s = Inr s' \<and> I s')"
    and start: "I s"
  shows "pagination_loop d N s clicks = None"
proof -
  have "pagination_loop d' N' s clicks = Some y \<Longrightarrow> d' = d \<and> N' = N \<and> I s \<Longrightarrow> False"
    for d' N' s clicks y
  proof (induction d' N' s clicks y rule: pagination_loop.raw_induct [rotated 1, consumes 1, case_names 1])
    case (1 loop d' N' s clicks y)
    note IH = 1(1) and body = 1(2) and here = 1(3)
    from here have eq: "d' = d" "N' = N" and "I s" by simp_all
    from inv [OF \<open>I s\<close>] obtain b s' where
      st: "int (length (driver_find_elements d s (CLASS_NAME ''thumbnail''))) < N"
      "driver_find_element d s (CLASS_NAME ''ecomerce-items-scroll-more'') = Inr b"
      "execute_script_click d b s = Inr s'" "I s'"
      by blast
    with body eq have "loop d' N' s' (clicks @ [s]) = Some y" by simp
    from IH [OF this] st(4) eq show ?case by simp
  qed
  then show ?thesis using start by (cases "pagination_loop d N s clicks") auto
qed

lemma filter_concat_replicate:
  "P c \<Longrightarrow> filter P ds = [] \<Longrightarrow> filter P (concat (replicate n (c # ds))) = replicate n c"
  "\<not> P c \<Longrightarrow> filter P ds = [] \<Longrightarrow> filter P (concat (replicate n (c # ds))) = []"
  by (induction n) simp_all

lemma sample_card_below:
  "filter (matches (CLASS_NAME ''thumbnail'')) (descendants (sample_card p r k)) = []"
  "filter (matches (CLASS_NAME ''ecomerce-items-scroll-more'')) (descendants (sample_card p r k)) = []"
  by (simp_all add: sample_card_def filter_concat)

lemma sample_card_matches:
  "matches (CLASS_NAME ''thumbnail'') (sample_card p r k)"
  "\<not> matches (CLASS_NAME ''ecomerce-items-scroll-more'') (sample_card p r k)"
  by (simp_all add: sample_card_def)

lemma category_links_filter:
  "filter (matches (CLASS_NAME ''thumbnail'')) category_links = []"
  "filter (matches (CLASS_NAME ''ecomerce-items-scroll-more'')) category_links = []"
  by (simp_all add: category_links_def)

lemma listing_page_descendants:
  "descendants (listing_page n m) =
     category_links
     @ concat (replicate n (sample_card ''$1299.99'' ''7 reviews'' 3
                            # descendants (sample_card ''$1299.99'' ''7 reviews'' 3)))
     @ (if m then [Element ''a'' [''ecomerce-items-scroll-more''] [] ''More'' []] else [])"
  by (simp add: listing_page_def category_links_def)

lemma listing_page_matches:
  "\<not> matches (CLASS_NAME ''thumbnail'') (listing_page n m)"
  "\<not> matches (CLASS_NAME ''ecomerce-items-scroll-more'') (listing_page n m)"
  "\<not> matches (CLASS_NAME ''thumbnail'') (Element ''a'' [''ecomerce-items-scroll-more''] [] ''More'' [])"
  "matches (CLASS_NAME ''ecomerce-items-scroll-more'') (Element ''a'' [''ecomerce-items-scroll-more''] [] ''More'' [])"
  by (simp_all add: listing_page_def)

lemma listing_page_thumbnails:
  "filter (matches (CLASS_NAME ''thumbnail'')) (descendants (listing_page n m))
     = replicate n (sample_card ''$1299.99'' ''7 reviews'' 3)"
  by (simp add: listing_page_descendants listing_page_matches sample_card_matches
      sample_card_below filter_concat_replicate category_links_filter del: matches.simps)

lemma listing_page_control:
  "filter (matches (CLASS_NAME ''ecomerce-items-scroll-more'')) (descendants (listing_page n m))
     = (if m then [Element ''a'' [''ecomerce-items-scroll-more''] [] ''More'' []] else [])"
  by (simp add: listing_page_descendants listing_page_matches sample_card_matches
      sample_card_below filter_concat_replicate category_links_filter del: matches.simps)

lemma listing_browser_thumbnails:
  "driver_find_elements (listing_browser step limit) s (CLASS_NAME ''thumbnail'')
     = replicate s (sample_card ''$1299.99'' ''7 reviews'' 3)"
  by (simp add: driver_find_elements_def listing_browser_def listing_page_thumbnails
      listing_page_matches del: matches.simps)

lemma listing_browser_control:
  "driver_find_element (listing_browser step limit) s (CLASS_NAME ''ecomerce-items-scroll-more'')
     = (if s < limit then Inr (Element ''a'' [''ecomerce-items-scroll-more''] [] ''More'' [])
        else Inl NoSuchElementException)"
  by (simp add: driver_find_element_def driver_find_elements_def listing_browser_def
      listing_page_control listing_page_matches del: matches.simps)

lemma listing_browser_script:
  "execute_script_click (listing_browser step limit) e s = Inr (min limit (s + step))"
  by (simp add: listing_browser_def)

lemma stalled_browser_facts:
  "driver_find_elements stalled_browser s (CLASS_NAME ''thumbnail'') = []"
  "driver_find_element stalled_browser s (CLASS_NAME ''ecomerce-items-scroll-more'')
     = Inr (Element ''a'' [''ecomerce-items-scroll-more''] [] ''More'' [])"
  "execute_script_click stalled_browser e s = Inr ()"
  by (simp_all add: driver_find_element_def driver_find_elements_def stalled_browser_def
      listing_page_control listing_page_thumbnails listing_page_matches del: matches.simps)

lemma map_result_Inr:
  "map_result f xs = Inr ys \<Longrightarrow> length ys = length xs \<and> (\<forall>i < length xs. f (xs ! i) = Inr (ys ! i))"
proof (induction xs arbitrary: ys)
  case Nil
  then show ?case by simp
next
  case (Cons x xs)
  then obtain y ys' where p: "f x = Inr y" "map_result f xs = Inr ys'" "ys = y # ys'"
    by (auto split: sum.splits)
  with Cons.IH [OF p(2)] show ?case by (auto simp: nth_Cons split: nat.split)
qed

lemma map_result_total:
  "(\<forall>x \<in> set xs. \<exists>y. f x = Inr y) \<Longrightarrow> \<exists>ys. map_result f xs = Inr ys"
  by (induction xs) auto

lemma map_result_replicate:
  "f x = Inr y \<Longrightarrow> map_result f (replicate n x) = Inr (replicate n y)"
  by (induction n) auto

text \<open>
  C4: for every session state and every positive target \<open>N\<close>, at every iteration of the
  loop of \<open>execute_more_pagination_script\<close>: when the rendered card count is already
  \<open>N\<close> or more, the loop returns there with no further click; when the load-more control
  cannot be located, it returns normally, with no exception; and in a run that returns,
  every click was made in a state with fewer than \<open>N\<close> rendered cards.
\<close>

theorem pagination_stops_at_target:
  assumes "0 < N"
  shows "execute_more_pagination_script d N s = pagination_loop d N s []
    \<and> (N \<le> int (length (driver_find_elements d s (CLASS_NAME ''thumbnail'')))
         \<longrightarrow> pagination_loop d N s clicks = Some (Inr s, clicks))
    \<and> (driver_find_element d s (CLASS_NAME ''ecomerce-items-scroll-more'') = Inl NoSuchElementException
         \<longrightarrow> pagination_loop d N s clicks = Some (Inr s, clicks))
    \<and> (\<forall>r clicks'. pagination_loop d N s clicks = Some (r, clicks')
         \<longrightarrow> (\<exists>new. clicks' = clicks @ new
                \<and> (\<forall>x \<in> set new.
                      int (length (driver_find_elements d x (CLASS_NAME ''thumbnail''))) < N)))"
proof (intro conjI impI allI)
  show "execute_more_pagination_script d N s = pagination_loop d N s []"
    by (simp add: execute_more_pagination_script_def)
next
  assume "N \<le> int (length (driver_find_elements d s (CLASS_NAME ''thumbnail'')))"
  then show "pagination_loop d N s clicks = Some (Inr s, clicks)"
    by (intro pagination_loop_reached) simp
next
  assume "driver_find_element d s (CLASS_NAME ''ecomerce-items-scroll-more'') = Inl NoSuchElementException"
  then show "pagination_loop d N s clicks = Some (Inr s, clicks)"
    by (rule pagination_loop_no_control)
next
  fix r clicks'
  assume "pagination_loop d N s clicks = Some (r, clicks')"
  from pagination_loop_clicks_below_aux [OF this]
  show "\<exists>new. clicks' = clicks @ new
          \<and> (\<forall>x \<in> set new. int (length (driver_find_elements d x (CLASS_NAME ''thumbnail''))) < N)"
    by simp
qed

theorem pagination_stops_at_target_witness:
  "(0::int) < 3
   \<and> pagination_loop (listing_browser 3 5) 3 5 [] = Some (Inr 5, [])
   \<and> pagination_loop (listing_browser 3 2) 3 2 [] = Some (Inr 2, [])
   \<and> pagination_loop (listing_browser 2 9) 3 0 [] = Some (Inr 4, [0, 2])
   \<and> int (length (driver_find_elements (listing_browser 2 9) 0 (CLASS_NAME ''thumbnail''))) < 3
   \<and> int (length (driver_find_elements (listing_browser 2 9) 2 (CLASS_NAME ''thumbnail''))) < 3"
proof -
  have run: "pagination_loop (listing_browser 2 9) 3 0 [] = Some (Inr 4, [0, 2])"
  proof -
    have "pagination_loop (listing_browser 2 9) 3 0 [] = pagination_loop (listing_browser 2 9) 3 2 [0]"
      by (subst pagination_loop_click [where s' = 2])
         (simp_all add: listing_browser_thumbnails listing_browser_control listing_browser_script)
    also have "\<dots> = pagination_loop (listing_browser 2 9) 3 4 [0, 2]"
      by (subst pagination_loop_click [where s' = 4])
         (simp_all add: listing_browser_thumbnails listing_browser_control listing_browser_script)
    also have "\<dots> = Some (Inr 4, [0, 2])"
      by (subst pagination_loop_reached) (simp_all add: listing_browser_thumbnails)
    finally show ?thesis .
  qed
  have a: "pagination_loop (listing_browser 3 5) 3 5 [] = Some (Inr 5, [])"
    using pagination_stops_at_target [of 3 "listing_browser 3 5" 5 "[]"]
    by (simp add: listing_browser_thumbnails)
  have b: "pagination_loop (listing_browser 3 2) 3 2 [] = Some (Inr 2, [])"
    using pagination_stops_at_target [of 3 "listing_browser 3 2" 2 "[]"]
    by (simp add: listing_browser_control)
  have c: "int (length (driver_find_elements (listing_browser 2 9) 0 (CLASS_NAME ''thumbnail''))) < 3
      \<and> int (length (driver_find_elements (listing_browser 2 9) 2 (CLASS_NAME ''thumbnail''))) < 3"
    using pagination_stops_at_target [of 3 "listing_browser 2 9" 0 "[]"] run
    by auto
  show ?thesis using a b c run by simp
qed

text \<open>
  C5: when the load-more control is located in every state, running the click script on
  it always completes and never increases the rendered card count, and the count is
  below the target, \<open>execute_more_pagination_script\<close> never returns.
\<close>

theorem pagination_never_returns:
  assumes locatable:
      "\<forall>x. \<exists>b. driver_find_element d x (CLASS_NAME ''ecomerce-items-scroll-more'') = Inr b"
    and stalls:
      "\<forall>x b. driver_find_element d x (CLASS_NAME ''ecomerce-items-scroll-more'') = Inr b \<longrightarrow>
         (\<exists>x'. execute_script_click d b x = Inr x'
            \<and> length (driver_find_elements d x' (CLASS_NAME ''thumbnail''))
                \<le> length (driver_find_elements d x (CLASS_NAME ''thumbnail'')))"
    and below: "int (length (driver_find_elements d s (CLASS_NAME ''thumbnail''))) < N"
  shows "execute_more_pagination_script d N s = None"
proof -
  let ?I = "\<lambda>x. int (length (driver_find_elements d x (CLASS_NAME ''thumbnail''))) < N"
  have step: "?I x \<Longrightarrow>
      int (length (driver_find_elements d x (CLASS_NAME ''thumbnail''))) < N
      \<and> (\<exists>b x'. driver_find_element d x (CLASS_NAME ''ecomerce-items-scroll-more'') = Inr b
             \<and> execute_script_click d b x = Inr x' \<and> ?I x')" for x
  proof -
    assume i: "?I x"
    from locatable obtain b where
      b: "driver_find_element d x (CLASS_NAME ''ecomerce-items-scroll-more'') = Inr b"
      by blast
    with stalls obtain x' where
      x': "execute_script_click d b x = Inr x'"
      "length (driver_find_elements d x' (CLASS_NAME ''thumbnail''))
         \<le> length (driver_find_elements d x (CLASS_NAME ''thumbnail''))"
      by blast
    from i x'(2) have "?I x'" by linarith
    with i b x'(1) show ?thesis by blast
  qed
  show ?thesis
    unfolding execute_more_pagination_script_def
    by (rule pagination_loop_diverges [where I = ?I, OF step below])
qed

theorem pagination_never_returns_witness:
  "execute_more_pagination_script stalled_browser 3 () = None"
  using pagination_never_returns [of stalled_browser "()" 3]
  by (simp add: stalled_browser_facts)

text \<open>
  C6: for a page state with exactly 5 rendered cards, each well formed, and no load-more
  control, \<open>parse_product_card\<close> with target 3 returns 5 records, the record of each
  rendered card in page order, and makes no click.
\<close>

theorem harvest_returns_every_rendered_card:
  assumes five: "length (driver_find_elements d s (CLASS_NAME ''thumbnail'')) = 5"
    and no_control:
      "driver_find_element d s (CLASS_NAME ''ecomerce-items-scroll-more'') = Inl NoSuchElementException"
    and well_formed:
      "\<forall>c \<in> set (driver_find_elements d s (CLASS_NAME ''thumbnail'')). \<exists>p. get_product c = Inr p"
  shows "\<exists>records. parse_product_card d 3 s = Some (Inr (records, s), [])
           \<and> length records = 5
           \<and> (\<forall>i < 5. get_product (driver_find_elements d s (CLASS_NAME ''thumbnail'') ! i)
                          = Inr (records ! i))"
proof -
  from map_result_total [OF well_formed] obtain records where
    r: "map_result get_product (driver_find_elements d s (CLASS_NAME ''thumbnail'')) = Inr records"
    by blast
  have loop: "execute_more_pagination_script d 3 s = Some (Inr s, [])"
    unfolding execute_more_pagination_script_def
    using five by (intro pagination_loop_reached) simp
  have "parse_product_card d 3 s = Some (Inr (records, s), [])"
    by (simp add: parse_product_card_def loop r)
  with map_result_Inr [OF r] five show ?thesis by auto
qed

lemma get_product_sample_card:
  "get_product (sample_card ''$1299.99'' ''7 reviews'' 3) =
     Inr \<lparr> title = Some ''Asus VivoBook'', description = ''15.6 inch laptop'',
           price = Finite (129999 / 100), rating = 3, num_of_reviews = 7 \<rparr>"
proof -
  have p: "parse_price ''$1299.99'' = Inr (Finite (129999 / 100))"
    by (simp add: parse_price_def py_float_def strip_def is_space_def is_digit_def
        parse_exponent_def ascii_lower_def digits_val_def digit_val_def pow10_def)
  show ?thesis
    by (simp add: get_product_def sample_card_elements sample_card_stars p parse_seven_reviews
        get_attribute_def)
qed

theorem harvest_returns_every_rendered_card_witness:
  "parse_product_card (listing_browser 3 5) 3 5 =
     Some (Inr (replicate 5 \<lparr> title = Some ''Asus VivoBook'', description = ''15.6 inch laptop'',
                              price = Finite (129999 / 100), rating = 3, num_of_reviews = 7 \<rparr>, 5), [])"
proof -
  let ?d = "listing_browser 3 5"
  let ?r = "\<lparr> title = Some ''Asus VivoBook'', description = ''15.6 inch laptop'',
             price = Finite (129999 / 100), rating = 3, num_of_reviews = 7 \<rparr>"
  have five: "length (driver_find_elements ?d 5 (CLASS_NAME ''thumbnail'')) = 5"
    by (simp add: listing_browser_thumbnails)
  have nc: "driver_find_element ?d 5 (CLASS_NAME ''ecomerce-items-scroll-more'')
              = Inl NoSuchElementException"
    by (simp add: listing_browser_control)
  have wf: "\<forall>c \<in> set (driver_find_elements ?d 5 (CLASS_NAME ''thumbnail'')). \<exists>p. get_product c = Inr p"
    by (simp add: listing_browser_thumbnails get_product_sample_card)
  from harvest_returns_every_rendered_card [OF five nc wf] obtain records where
    r: "parse_product_card ?d 3 5 = Some (Inr (records, 5), [])" "length records = 5"
      "\<forall>i < 5. get_product (driver_find_elements ?d 5 (CLASS_NAME ''thumbnail'') ! i) = Inr (records ! i)"
    by blast
  have "records ! i = ?r" if "i < 5" for i
    using r(3) that by (simp add: listing_browser_thumbnails get_product_sample_card)
  then have "records = replicate 5 ?r"
    using r(2) by (intro nth_equalityI) simp_all
  with r(1) show ?thesis by simp
qed

text \<open>
  C7: with the target 0, for every session state, \<open>execute_more_pagination_script\<close>
  returns at once in the same state with no click, and \<open>parse_product_card\<close> does not
  enter the loop at all: it makes no click and parses the cards already rendered.
\<close>

theorem zero_target_clicks_nothing:
  "execute_more_pagination_script d 0 s = Some (Inr s, [])
   \<and> parse_product_card d 0 s =
       Some (case map_result get_product (driver_find_elements d s (CLASS_NAME ''thumbnail'')) of
               Inl e \<Rightarrow> Inl e
             | Inr records \<Rightarrow> Inr (records, s), [])"
proof
  show "execute_more_pagination_script d 0 s = Some (Inr s, [])"
    unfolding execute_more_pagination_script_def
    by (intro pagination_loop_reached) simp
  show "parse_product_card d 0 s =
       Some (case map_result get_product (driver_find_elements d s (CLASS_NAME ''thumbnail'')) of
               Inl e \<Rightarrow> Inl e
             | Inr records \<Rightarrow> Inr (records, s), [])"
    by (simp add: parse_product_card_def split: sum.split)
qed

section \<open>The CSV file\<close>















lemma dict_to_list_asdict:
  "dict_to_list product_field_names (asdict obj) =
     Inr [case title obj of None \<Rightarrow> CNone | Some t \<Rightarrow> CStr t,
          CStr (description obj), CFloat (price obj), CInt (int (rating obj)),
          CInt (num_of_reviews obj)]"
  by (simp add: dict_to_list_def product_field_names_def asdict_def)

lemma writerows_text:
  "writerows float_str product_field_names products out =
     Inr (out @ concat (map (\<lambda>p. writerow
            [case title p of None \<Rightarrow> [] | Some t \<Rightarrow> t, description p, float_str (price p),
             str_int (int (rating p)), str_int (num_of_reviews p)]) products))"
proof (induction products arbitrary: out)
  case Nil
  show ?case by simp
next
  case (Cons obj products)
  show ?case
    by (simp add: dict_to_list_asdict Cons.IH split: option.split)
qed



section \<open>The run over the categories\<close>

lemma write_to_csv_text:
  "write_to_csv float_str products filename fs =
     Inr (fs(filename \<mapsto>
        concat (map writerow
          (product_field_names
           # map (\<lambda>p. [case title p of None \<Rightarrow> [] | Some t \<Rightarrow> t, description p,
                         float_str (price p), str_int (int (rating p)),
                         str_int (num_of_reviews p)]) products))))"
  by (simp add: write_to_csv_def writerows_text comp_def)

lemma harvest_to_dom:
  assumes "harvest_to float_str d n filename (s, fs) = Some (Inr (s', fs'))"
  shows "dom fs' = insert filename (dom fs)"
  using assms
  by (auto simp: harvest_to_def write_to_csv_text split: option.splits sum.splits prod.splits)

lemma click_link_files:
  assumes "click_link d t (s, fs) = Some (Inr (s', fs'))"
  shows "fs' = fs"
  using assms by (auto simp: click_link_def split: sum.splits)

lemma first_match_find:
  "(case filter P xs of [] \<Rightarrow> a | x # _ \<Rightarrow> f x) = (case List.find P xs of None \<Rightarrow> a | Some x \<Rightarrow> f x)"
  by (induction xs) auto

lemma click_link_spec:
  "click_link d t (s, fs) =
     (case spec_navigate d (Some t) s of
        Inl e \<Rightarrow> Some (Inl e)
      | Inr s' \<Rightarrow> Some (Inr (s', fs)))"
proof -
  have m: "matches (LINK_TEXT t) = (\<lambda>e. el_tag e = ''a'' \<and> el_text e = t)"
    by (rule ext) simp
  have f: "driver_find_element d s (LINK_TEXT t) =
             (case List.find (\<lambda>e. el_tag e = ''a'' \<and> el_text e = t)
                     (page d s # descendants (page d s)) of
                None \<Rightarrow> Inl NoSuchElementException
              | Some link \<Rightarrow> Inr link)"
    unfolding driver_find_element_def driver_find_elements_def m
    by (rule first_match_find)
  show ?thesis
    by (simp add: click_link_def spec_navigate_def f split: option.split sum.split
        del: find.simps)
qed

lemma harvest_to_spec:
  "harvest_to float_str d n filename st = spec_category_step float_str d (None, n, filename) st"
  by (cases st)
     (simp add: harvest_to_def spec_category_step_def spec_navigate_def
        split: option.split sum.split prod.split)

lemma click_harvest_spec:
  "(case click_link d t st of
      None \<Rightarrow> None
    | Some (Inl e) \<Rightarrow> Some (Inl e)
    | Some (Inr st') \<Rightarrow> harvest_to float_str d n filename st')
   = spec_category_step float_str d (Some t, n, filename) st"
proof (cases st)
  case (Pair s fs)
  show ?thesis
    unfolding Pair click_link_spec
    by (simp add: harvest_to_def spec_category_step_def split: option.split sum.split prod.split)
qed

lemma run_statements_pair:
  "run_statements (c # h # stmts) st =
     (case (case c st of None \<Rightarrow> None | Some (Inl e) \<Rightarrow> Some (Inl e) | Some (Inr st') \<Rightarrow> h st') of
        None \<Rightarrow> None
      | Some (Inl e) \<Rightarrow> Some (Inl e)
      | Some (Inr st') \<Rightarrow> run_statements stmts st')"
  by (simp split: option.split sum.split)

lemma spec_category_step_dom:
  assumes "spec_category_step float_str d (nav, n, filename) (s, fs) = Some (Inr (s', fs'))"
  shows "dom fs' = insert filename (dom fs)"
  using assms
  by (auto simp: spec_category_step_def write_to_csv_text
      split: option.splits sum.splits prod.splits)

lemma spec_run_categories_dom:
  "spec_run_categories float_str d cats st = Some (Inr st')
   \<Longrightarrow> dom (snd st') = dom (snd st) \<union> set (map (snd \<circ> snd) cats)"
proof (induction cats arbitrary: st)
  case Nil
  then show ?case by simp
next
  case (Cons cat cats)
  obtain nav n filename where cat: "cat = (nav, n, filename)" by (cases cat) auto
  obtain s fs where st: "st = (s, fs)" by (cases st) auto
  from Cons.prems obtain st1 where
    a: "spec_category_step float_str d cat st = Some (Inr st1)"
    and b: "spec_run_categories float_str d cats st1 = Some (Inr st')"
    by (auto split: option.splits sum.splits)
  obtain s1 fs1 where st1: "st1 = (s1, fs1)" by (cases st1) auto
  from a have "dom fs1 = insert filename (dom fs)"
    unfolding cat st st1 by (rule spec_category_step_dom)
  with Cons.IH [OF b] show ?case by (auto simp: cat st st1)
qed

lemma find_append_Some:
  "List.find P xs = Some x \<Longrightarrow> List.find P (xs @ ys) = Some x"
  by (induction xs) (auto split: if_splits)

lemma category_links_find:
  assumes "t \<in> set [''Computers'', ''Laptops'', ''Tablets'', ''Phones'', ''Touch'']"
  shows "List.find (\<lambda>e. el_tag e = ''a'' \<and> el_text e = t) category_links
           = Some (Element ''a'' [''category-link''] [] t [])"
  using assms by (auto simp: category_links_def)

lemma listing_page_find_link:
  assumes "t \<in> set [''Computers'', ''Laptops'', ''Tablets'', ''Phones'', ''Touch'']"
  shows "List.find (\<lambda>e. el_tag e = ''a'' \<and> el_text e = t)
           (listing_page n m # descendants (listing_page n m))
         = Some (Element ''a'' [''category-link''] [] t [])"
proof -
  have "el_tag (listing_page n m) \<noteq> ''a''"
    by (simp add: listing_page_def)
  then have "List.find (\<lambda>e. el_tag e = ''a'' \<and> el_text e = t)
           (listing_page n m # descendants (listing_page n m))
        = List.find (\<lambda>e. el_tag e = ''a'' \<and> el_text e = t) (descendants (listing_page n m))"
    by simp
  also have "\<dots> = Some (Element ''a'' [''category-link''] [] t [])"
    unfolding listing_page_descendants
    by (rule find_append_Some) (rule category_links_find [OF assms])
  finally show ?thesis .
qed

lemma recording_browser_page:
  "driver_find_elements recording_browser s (CLASS_NAME ''thumbnail'')
     = replicate 5 (sample_card ''$1299.99'' ''7 reviews'' 3)"
  "driver_find_element recording_browser s (CLASS_NAME ''ecomerce-items-scroll-more'')
     = Inl NoSuchElementException"
proof -
  have p: "page recording_browser s = listing_page 5 False"
    by (simp add: recording_browser_def)
  show "driver_find_elements recording_browser s (CLASS_NAME ''thumbnail'')
     = replicate 5 (sample_card ''$1299.99'' ''7 reviews'' 3)"
    unfolding driver_find_elements_def p
    using listing_page_thumbnails [of 5 False] listing_page_matches(1) [of 5 False]
    by (simp only: filter.simps if_False)
  show "driver_find_element recording_browser s (CLASS_NAME ''ecomerce-items-scroll-more'')
     = Inl NoSuchElementException"
    unfolding driver_find_element_def driver_find_elements_def p
    using listing_page_control [of 5 False] listing_page_matches(2) [of 5 False]
    by (simp only: filter.simps if_False list.case)
qed

lemma recording_browser_navigate:
  assumes "t \<in> set [''Computers'', ''Laptops'', ''Tablets'', ''Phones'', ''Touch'']"
  shows "spec_navigate recording_browser (Some t) s = Inr (s @ [t])"
proof -
  have p: "page recording_browser s = listing_page 5 False"
    by (simp add: recording_browser_def)
  have c: "click recording_browser e s = Inr (s @ [el_text e])" for e
    by (simp add: recording_browser_def)
  show ?thesis
    unfolding spec_navigate_def p
    by (simp only: option.case listing_page_find_link [OF assms] c element.sel)
qed

lemma recording_browser_harvest:
  "parse_product_card recording_browser n s =
     Some (Inr (replicate 5 \<lparr> title = Some ''Asus VivoBook'', description = ''15.6 inch laptop'',
                  price = Finite (129999 / 100), rating = 3, num_of_reviews = 7 \<rparr>, s), [])"
proof -
  have "pagination_loop recording_browser n s [] = Some (Inr s, [])"
    by (rule pagination_loop_no_control) (rule recording_browser_page)
  then show ?thesis
    by (simp add: parse_product_card_def execute_more_pagination_script_def
        recording_browser_page map_result_replicate get_product_sample_card)
qed

lemma recording_browser_step:
  assumes "spec_navigate recording_browser nav s = Inr s1"
  shows "\<exists>text. spec_category_step float_str recording_browser (nav, n, filename) (s, fs)
           = Some (Inr (s1, fs(filename \<mapsto> text)))"
  using assms
  by (auto simp: spec_category_step_def recording_browser_harvest write_to_csv_text)

lemma run_statements_categories:
  "run_statements (concat (map (\<lambda>(t, n, f). [click_link d t, harvest_to float_str d n f]) cats)) st
     = spec_run_categories float_str d (map (\<lambda>(t, n, f). (Some t, n, f)) cats) st"
proof (induction cats arbitrary: st)
  case Nil
  show ?case by simp
next
  case (Cons cat cats)
  obtain t n f where cat: "cat = (t, n, f)" by (cases cat) auto
  show ?case
    unfolding cat
    by (simp only: list.map concat.simps prod.case append_Cons append_Nil
        run_statements_pair click_harvest_spec spec_run_categories.simps Cons.IH)
qed

text \<open>
  C9: \<open>get_all_products\<close> is the run over the six categories Home, Computers, Laptops,
  Tablets, Phones, Touch, in this order, with the target counts 3, 3, 117, 21, 3, 9 and
  the files \<^verbatim>\<open>home.csv\<close>, \<^verbatim>\<open>computers.csv\<close>, \<^verbatim>\<open>laptops.csv\<close>, \<^verbatim>\<open>tablets.csv\<close>,
  \<^verbatim>\<open>phones.csv\<close>, \<^verbatim>\<open>touch.csv\<close>. Each category after the first starts with the lookup
  of the link with its name and the browser's click on it, made with no test once the
  write of the previous category has returned; then the page is harvested with the
  target count and the records are written to the file. (A step that raises, or a loop
  that never returns, ends the run there.) A run that returns has written exactly these
  six files.
\<close>

theorem get_all_products_six_categories:
  "get_all_products float_str d fs =
     (case init_driver d of
        Inl e \<Rightarrow> Some (Inl e)
      | Inr driver \<Rightarrow>
          (case get d HOME_URL driver of
             Inl e \<Rightarrow> Some (Inl e)
           | Inr s \<Rightarrow>
               spec_run_categories float_str d
                 [(None, 3, ''home.csv''),
                  (Some ''Computers'', 3, ''computers.csv''),
                  (Some ''Laptops'', 117, ''laptops.csv''),
                  (Some ''Tablets'', 21, ''tablets.csv''),
                  (Some ''Phones'', 3, ''phones.csv''),
                  (Some ''Touch'', 9, ''touch.csv'')]
                 (s, fs)))
   \<and> (\<forall>s' fs'. get_all_products float_str d fs = Some (Inr (s', fs')) \<longrightarrow>
          dom fs' = dom fs \<union> {''home.csv'', ''computers.csv'', ''laptops.csv'', ''tablets.csv'',
                               ''phones.csv'', ''touch.csv''})"
proof -
  let ?cats = "[(None, 3, ''home.csv''),
                  (Some ''Computers'', 3, ''computers.csv''),
                  (Some ''Laptops'', 117, ''laptops.csv''),
                  (Some ''Tablets'', 21, ''tablets.csv''),
                  (Some ''Phones'', 3, ''phones.csv''),
                  (Some ''Touch'', 9, ''touch.csv'')] :: (string option \<times> int \<times> string) list"
  have stmts: "run_statements
          [harvest_to float_str d 3 ''home.csv'',
           click_link d ''Computers'', harvest_to float_str d 3 ''computers.csv'',
           click_link d ''Laptops'', harvest_to float_str d 117 ''laptops.csv'',
           click_link d ''Tablets'', harvest_to float_str d 21 ''tablets.csv'',
           click_link d ''Phones'', harvest_to float_str d 3 ''phones.csv'',
           click_link d ''Touch'', harvest_to float_str d 9 ''touch.csv''] st
        = spec_run_categories float_str d ?cats st" for st
  proof -
    have "run_statements
          [harvest_to float_str d 3 ''home.csv'',
           click_link d ''Computers'', harvest_to float_str d 3 ''computers.csv'',
           click_link d ''Laptops'', harvest_to float_str d 117 ''laptops.csv'',
           click_link d ''Tablets'', harvest_to float_str d 21 ''tablets.csv'',
           click_link d ''Phones'', harvest_to float_str d 3 ''phones.csv'',
           click_link d ''Touch'', harvest_to float_str d 9 ''touch.csv''] st
        = run_statements
            (harvest_to float_str d 3 ''home.csv''
             # concat (map (\<lambda>(t, n, f). [click_link d t, harvest_to float_str d n f])
                 [(''Computers'', 3, ''computers.csv''), (''Laptops'', 117, ''laptops.csv''),
                  (''Tablets'', 21, ''tablets.csv''), (''Phones'', 3, ''phones.csv''),
                  (''Touch'', 9, ''touch.csv'')])) st"
      by simp
    also have "\<dots> = spec_run_categories float_str d
            ((None, 3, ''home.csv'')
             # map (\<lambda>(t, n, f). (Some t, n, f))
                 [(''Computers'', 3, ''computers.csv''), (''Laptops'', 117, ''laptops.csv''),
                  (''Tablets'', 21, ''tablets.csv''), (''Phones'', 3, ''phones.csv''),
                  (''Touch'', 9, ''touch.csv'')]) st"
      by (simp only: run_statements.simps spec_run_categories.simps harvest_to_spec
          run_statements_categories cong: option.case_cong sum.case_cong)
    also have "\<dots> = spec_run_categories float_str d ?cats st"
      by simp
    finally show ?thesis .
  qed
  have eq: "get_all_products float_str d fs =
     (case init_driver d of
        Inl e \<Rightarrow> Some (Inl e)
      | Inr driver \<Rightarrow>
          (case get d HOME_URL driver of
             Inl e \<Rightarrow> Some (Inl e)
           | Inr s \<Rightarrow> spec_run_categories float_str d ?cats (s, fs)))"
    by (simp only: get_all_products_def stmts)
  have files: "dom fs' = dom fs \<union> {''home.csv'', ''computers.csv'', ''laptops.csv'', ''tablets.csv'',
                               ''phones.csv'', ''touch.csv''}"
    if "get_all_products float_str d fs = Some (Inr (s', fs'))" for s' fs'
  proof -
    from that eq obtain s where
      "spec_run_categories float_str d ?cats (s, fs) = Some (Inr (s', fs'))"
      by (auto split: sum.splits)
    from spec_run_categories_dom [OF this] show ?thesis
      by auto
  qed
  from files have all_files:
    "\<forall>s' fs'. get_all_products float_str d fs = Some (Inr (s', fs')) \<longrightarrow>
          dom fs' = dom fs \<union> {''home.csv'', ''computers.csv'', ''laptops.csv'', ''tablets.csv'',
                               ''phones.csv'', ''touch.csv''}"
    by blast
  show ?thesis
    using eq all_files by (intro conjI)
qed

theorem get_all_products_six_categories_witness:
  "\<exists>fs'. get_all_products (\<lambda>x. ''1299.99'') recording_browser Map.empty
           = Some (Inr ([HOME_URL, ''Computers'', ''Laptops'', ''Tablets'', ''Phones'', ''Touch''], fs'))
      \<and> dom fs' = {''home.csv'', ''computers.csv'', ''laptops.csv'', ''tablets.csv'',
                    ''phones.csv'', ''touch.csv''}"
proof -
  let ?f = "\<lambda>x::pyfloat. ''1299.99''"
  let ?d = "recording_browser"
  have nav0: "spec_navigate ?d None s = Inr s" for s
    by (simp add: spec_navigate_def)
  have nav: "spec_navigate ?d (Some t) s = Inr (s @ [t])"
    if "t \<in> set [''Computers'', ''Laptops'', ''Tablets'', ''Phones'', ''Touch'']" for t s
    using that by (rule recording_browser_navigate)
  let ?s1 = "[HOME_URL]"
  obtain t1 where h1: "spec_category_step ?f ?d (None, 3, ''home.csv'') (?s1, Map.empty)
      = Some (Inr (?s1, [''home.csv'' \<mapsto> t1]))"
    using recording_browser_step [OF nav0, of ?f 3 "''home.csv''" ?s1 Map.empty] by auto
  let ?fs1 = "[''home.csv'' \<mapsto> t1]"
  let ?s2 = "?s1 @ [''Computers'']"
  obtain t2 where h2: "spec_category_step ?f ?d (Some ''Computers'', 3, ''computers.csv'') (?s1, ?fs1)
      = Some (Inr (?s2, ?fs1(''computers.csv'' \<mapsto> t2)))"
    using recording_browser_step [OF nav, of "''Computers''" ?f 3 "''computers.csv''" ?s1 ?fs1] by auto
  let ?fs2 = "?fs1(''computers.csv'' \<mapsto> t2)"
  let ?s3 = "?s2 @ [''Laptops'']"
  obtain t3 where h3: "spec_category_step ?f ?d (Some ''Laptops'', 117, ''laptops.csv'') (?s2, ?fs2)
      = Some (Inr (?s3, ?fs2(''laptops.csv'' \<mapsto> t3)))"
    using recording_browser_step [OF nav, of "''Laptops''" ?f 117 "''laptops.csv''" ?s2 ?fs2] by auto
  let ?fs3 = "?fs2(''laptops.csv'' \<mapsto> t3)"
  let ?s4 = "?s3 @ [''Tablets'']"
  obtain t4 where h4: "spec_category_step ?f ?d (Some ''Tablets'', 21, ''tablets.csv'') (?s3, ?fs3)
      = Some (Inr (?s4, ?fs3(''tablets.csv'' \<mapsto> t4)))"
    using recording_browser_step [OF nav, of "''Tablets''" ?f 21 "''tablets.csv''" ?s3 ?fs3] by auto
  let ?fs4 = "?fs3(''tablets.csv'' \<mapsto> t4)"
  let ?s5 = "?s4 @ [''Phones'']"
  obtain t5 where h5: "spec_category_step ?f ?d (Some ''Phones'', 3, ''phones.csv'') (?s4, ?fs4)
      = Some (Inr (?s5, ?fs4(''phones.csv'' \<mapsto> t5)))"
    using recording_browser_step [OF nav, of "''Phones''" ?f 3 "''phones.csv''" ?s4 ?fs4] by auto
  let ?fs5 = "?fs4(''phones.csv'' \<mapsto> t5)"
  let ?s6 = "?s5 @ [''Touch'']"
  obtain t6 where h6: "spec_category_step ?f ?d (Some ''Touch'', 9, ''touch.csv'') (?s5, ?fs5)
      = Some (Inr (?s6, ?fs5(''touch.csv'' \<mapsto> t6)))"
    using recording_browser_step [OF nav, of "''Touch''" ?f 9 "''touch.csv''" ?s5 ?fs5] by auto
  let ?fs6 = "?fs5(''touch.csv'' \<mapsto> t6)"
  have start: "init_driver ?d = Inr []" "get ?d HOME_URL [] = Inr ?s1"
    by (simp_all add: init_driver_def recording_browser_def)
  have steps: "spec_run_categories ?f ?d
                 [(None, 3, ''home.csv''),
                  (Some ''Computers'', 3, ''computers.csv''),
                  (Some ''Laptops'', 117, ''laptops.csv''),
                  (Some ''Tablets'', 21, ''tablets.csv''),
                  (Some ''Phones'', 3, ''phones.csv''),
                  (Some ''Touch'', 9, ''touch.csv'')] (?s1, Map.empty)
        = Some (Inr (?s6, ?fs6))"
    by (simp only: spec_run_categories.simps h1 h2 h3 h4 h5 h6 option.case sum.case)
  note six = get_all_products_six_categories [of ?f ?d Map.empty]
  have run: "get_all_products ?f ?d Map.empty = Some (Inr (?s6, ?fs6))"
    using six [THEN conjunct1] by (simp only: start sum.case steps)
  have "dom ?fs6 = dom (Map.empty :: files) \<union> {''home.csv'', ''computers.csv'', ''laptops.csv'',
          ''tablets.csv'', ''phones.csv'', ''touch.csv''}"
    by (rule six [THEN conjunct2, rule_format, OF run])
  then have d: "dom ?fs6 = {''home.csv'', ''computers.csv'', ''laptops.csv'',
          ''tablets.csv'', ''phones.csv'', ''touch.csv''}"
    by (simp only: dom_empty Un_empty_left)
  have l: "?s6 = [HOME_URL, ''Computers'', ''Laptops'', ''Tablets'', ''Phones'', ''Touch'']"
    by (simp only: append_Cons append_Nil)
  from run d show ?thesis unfolding l by blast
qed

end
